theory Spec2Isabelle
  imports Main
begin

section \<open>Python values\<close>

text \<open>
  The backend is two Python modules: \<^verbatim>\<open>llm_utils.py\<close> (\<^verbatim>\<open>parse_query\<close>) and
  \<^verbatim>\<open>app.py\<close> (the two Flask routes). Text is modelled as \<open>string\<close>, read as a
  sequence of code points U+0000 .. U+00FF; everything the source distinguishes
  (braces, quotes, ASCII letters and digits, white space, the superscript digits
  that \<^verbatim>\<open>str.isdigit\<close> accepts) lives in that range.
\<close>

subsection \<open>Exceptions\<close>

datatype pyerror =
    RequestException
  | HTTPError
  | JSONDecodeError
  | IndexError
  | KeyError
  | TypeError
  | AttributeError
  | ValueError
  | OverflowError

subsection \<open>Floats\<close>

text \<open>
  A Python \<^verbatim>\<open>float\<close> is an IEEE 754 binary64 number. \<open>Float s m e\<close> is
  \<open>(-1)\<^sup>s * m * 2\<^sup>e\<close>, kept in lowest terms (\<open>m\<close> odd, or \<open>m = 0\<close> and \<open>e = 0\<close>),
  so that two finite floats are equal exactly when their constructor arguments are.
\<close>

datatype pyfloat = Float bool int int | Inf_float bool | NaN_float

function bitlen :: "int \<Rightarrow> int" where
  "bitlen n = (if n \<le> 0 then 0 else 1 + bitlen (n div 2))"
  by pat_completeness auto
termination
  by (relation "measure nat") auto

declare bitlen.simps [simp del]

text \<open>\<open>floor_log2 n d\<close> is \<open>\<lfloor>log\<^sub>2 (n / d)\<rfloor>\<close> for positive \<open>n\<close> and \<open>d\<close>.\<close>

definition floor_log2 :: "int \<Rightarrow> int \<Rightarrow> int" where
  "floor_log2 n d =
     (let k = bitlen n - bitlen d
      in if (if 0 \<le> k then d * 2 ^ nat k \<le> n else d \<le> n * 2 ^ nat (- k)) then k else k - 1)"

text \<open>Round the quotient \<open>n / d\<close> to the nearest integer, ties to the even one.\<close>

definition round_half_even :: "int \<Rightarrow> int \<Rightarrow> int" where
  "round_half_even n d =
     (let m = n div d; r = n mod d
      in if 2 * r < d then m else if d < 2 * r then m + 1 else if even m then m else m + 1)"

function trim :: "int \<Rightarrow> int \<Rightarrow> int \<times> int" where
  "trim m e = (if m \<le> 0 then (0, 0) else if even m then trim (m div 2) (e + 1) else (m, e))"
  by pat_completeness auto
termination
  by (relation "measure (\<lambda>(m, e). nat m)") auto

declare trim.simps [simp del]

text \<open>
  \<open>nearest_double s n d\<close> is the binary64 number nearest to \<open>(-1)\<^sup>s * n / d\<close>
  (\<open>0 \<le> n\<close>, \<open>0 < d\<close>), ties to even: the quotient is rounded to a multiple
  of \<open>2\<^sup>q\<close>, where \<open>q\<close> leaves 53 significant bits and is at least \<open>-1074\<close>
  (the spacing of the subnormal numbers); a result of \<open>2\<^sup>1\<^sup>0\<^sup>2\<^sup>4\<close> or more is infinite.
\<close>

definition nearest_double :: "bool \<Rightarrow> int \<Rightarrow> int \<Rightarrow> pyfloat" where
  "nearest_double s n d =
     (if n \<le> 0 then Float s 0 0
      else let q = max (floor_log2 n d - 52) (- 1074);
               m = (if 0 \<le> q then round_half_even n (d * 2 ^ nat q)
                    else round_half_even (n * 2 ^ nat (- q)) d)
           in if 1024 < bitlen m + q then Inf_float s
              else case trim m q of (m', e') \<Rightarrow> Float s m' e')"

text \<open>The float written \<open>n * 10\<^sup>k\<close> in decimal (\<^verbatim>\<open>float("30.48")\<close> is \<open>float_of_decimal False 3048 (-2)\<close>).\<close>

definition float_of_decimal :: "bool \<Rightarrow> int \<Rightarrow> int \<Rightarrow> pyfloat" where
  "float_of_decimal s n k =
     (if 0 \<le> k then nearest_double s (n * 10 ^ nat k) 1 else nearest_double s n (10 ^ nat (- k)))"

text \<open>\<^verbatim>\<open>float(i)\<close> for an \<^verbatim>\<open>int\<close>: correctly rounded, \<^verbatim>\<open>OverflowError\<close> beyond the range.\<close>

definition float_of_int :: "int \<Rightarrow> pyerror + pyfloat" where
  "float_of_int i =
     (case nearest_double (i < 0) \<bar>i\<bar> 1 of
        Inf_float s \<Rightarrow> Inl OverflowError
      | f \<Rightarrow> Inr f)"

text \<open>IEEE multiplication, round to nearest even.\<close>

fun float_mul :: "pyfloat \<Rightarrow> pyfloat \<Rightarrow> pyfloat" where
  "float_mul NaN_float y = NaN_float"
| "float_mul x NaN_float = NaN_float"
| "float_mul (Inf_float s) (Inf_float t) = Inf_float (s \<noteq> t)"
| "float_mul (Inf_float s) (Float t m e) = (if m = 0 then NaN_float else Inf_float (s \<noteq> t))"
| "float_mul (Float s m e) (Inf_float t) = (if m = 0 then NaN_float else Inf_float (s \<noteq> t))"
| "float_mul (Float s m e) (Float t m' e') =
     (if 0 \<le> e + e' then nearest_double (s \<noteq> t) (m * m' * 2 ^ nat (e + e')) 1
      else nearest_double (s \<noteq> t) (m * m') (2 ^ nat (- (e + e'))))"

text \<open>
  \<^verbatim>\<open>round(x, ndigits)\<close> for a float and \<open>ndigits \<ge> 0\<close>: the exact value of \<open>x\<close> is
  rounded half-even to \<open>ndigits\<close> decimal places, and the decimal result is
  converted back to the nearest float. Infinities and NaN round to themselves.
\<close>

fun py_round :: "pyfloat \<Rightarrow> nat \<Rightarrow> pyfloat" where
  "py_round (Float s m e) nd =
     (let c = (if 0 \<le> e then m * 2 ^ nat e * 10 ^ nd
               else round_half_even (m * 10 ^ nd) (2 ^ nat (- e)))
      in nearest_double s c (10 ^ nd))"
| "py_round x nd = x"

subsection \<open>JSON documents and dicts\<close>

text \<open>
  What \<^verbatim>\<open>json.loads\<close> produces. A \<^verbatim>\<open>dict\<close> is an association list with distinct
  keys in insertion order.
\<close>

datatype json =
    JNull
  | JBool bool
  | JInt int
  | JFloat pyfloat
  | JStr string
  | JArr "json list"
  | JObj "(string \<times> json) list"

type_synonym pydict = "(string \<times> json) list"

definition dict_get :: "pydict \<Rightarrow> string \<Rightarrow> json option" where
  "dict_get d k = map_of d k"

definition has_key :: "pydict \<Rightarrow> string \<Rightarrow> bool" where
  "has_key d k = (map_of d k \<noteq> None)"

definition keys :: "pydict \<Rightarrow> string set" where
  "keys d = fst ` set d"

text \<open>\<^verbatim>\<open>d[k] = v\<close>: an existing key keeps its position, a new one goes last.\<close>

fun dict_set :: "string \<Rightarrow> json \<Rightarrow> pydict \<Rightarrow> pydict" where
  "dict_set k v [] = [(k, v)]"
| "dict_set k v ((k', v') # d) = (if k' = k then (k, v) # d else (k', v') # dict_set k v d)"

text \<open>\<^verbatim>\<open>dict(pairs)\<close>: of two pairs with the same key the later value wins.\<close>

definition dict_of_pairs :: "(string \<times> json) list \<Rightarrow> pydict" where
  "dict_of_pairs ps = foldl (\<lambda>d (k, v). dict_set k v d) [] ps"

subsection \<open>Strings\<close>

text \<open>\<^verbatim>\<open>str.lower\<close>: the upper-case letters below U+0100 are A-Z and U+00C0 .. U+00DE without U+00D7.\<close>

definition lower_char :: "char \<Rightarrow> char" where
  "lower_char c =
     (let n = of_char c :: nat
      in if (65 \<le> n \<and> n \<le> 90) \<or> (192 \<le> n \<and> n \<le> 222 \<and> n \<noteq> 215) then char_of (n + 32) else c)"

definition lower :: "string \<Rightarrow> string" where
  "lower s = map lower_char s"

text \<open>\<^verbatim>\<open>sub in s\<close> for two strings: \<open>sub\<close> occurs in \<open>s\<close> as a contiguous block.\<close>

fun contains :: "string \<Rightarrow> string \<Rightarrow> bool" where
  "contains [] sub = (sub = [])"
| "contains (c # cs) sub = (take (length sub) (c # cs) = sub \<or> contains cs sub)"

text \<open>\<^verbatim>\<open>str.strip()\<close> removes leading and trailing white space (\<^verbatim>\<open>str.isspace\<close>).\<close>

definition is_space :: "char \<Rightarrow> bool" where
  "is_space c =
     (c \<in> {CHR 0x09, CHR 0x0A, CHR 0x0B, CHR 0x0C, CHR 0x0D, CHR 0x1C, CHR 0x1D, CHR 0x1E,
            CHR 0x1F, CHR 0x20, CHR 0x85, CHR 0xA0})"

definition strip :: "string \<Rightarrow> string" where
  "strip s = rev (dropWhile is_space (rev (dropWhile is_space s)))"

definition is_decimal :: "char \<Rightarrow> bool" where
  "is_decimal c = (c \<in> set ''0123456789'')"

text \<open>
  \<^verbatim>\<open>str.isdigit()\<close> holds of a non-empty string of characters with the Unicode
  property Numeric_Type Decimal or Digit; below U+0100 these are 0-9 and the
  superscripts U+00B2, U+00B3 and U+00B9.
\<close>

definition is_digit_char :: "char \<Rightarrow> bool" where
  "is_digit_char c = (is_decimal c \<or> c \<in> {CHR 0xB2, CHR 0xB3, CHR 0xB9})"

definition isdigit :: "string \<Rightarrow> bool" where
  "isdigit s = (s \<noteq> [] \<and> list_all is_digit_char s)"

definition digit_val :: "char \<Rightarrow> int" where
  "digit_val c = int (of_char c) - 48"

definition int_of_digits :: "string \<Rightarrow> int" where
  "int_of_digits s = foldl (\<lambda>a c. 10 * a + digit_val c) 0 s"

text \<open>
  \<^verbatim>\<open>int(s)\<close> on a string of digit characters (the only strings the source
  passes to it): decimal digits give their value, any other digit character
  raises \<^verbatim>\<open>ValueError\<close>.
\<close>

definition py_int :: "string \<Rightarrow> pyerror + int" where
  "py_int s = (if s \<noteq> [] \<and> list_all is_decimal s then Inr (int_of_digits s) else Inl ValueError)"

subsection \<open>Candidate blocks\<close>

text \<open>
  \<^verbatim>\<open>re.findall(r"\{.*?\}", text, re.DOTALL)\<close>: at each position from the left, a
  match starts at a \<open>{\<close> and runs to the first \<open>}\<close> after it (the star is lazy and,
  with \<^verbatim>\<open>DOTALL\<close>, the dot matches every character); the search goes on after
  the match, or one character further where there is none.
\<close>

function findall_braces :: "string \<Rightarrow> string list" where
  "findall_braces [] = []"
| "findall_braces (c # cs) =
     (if c = CHR ''{'' \<and> CHR ''}'' \<in> set cs
      then (c # takeWhile (\<lambda>x. x \<noteq> CHR ''}'') cs @ [CHR ''}''])
             # findall_braces (tl (dropWhile (\<lambda>x. x \<noteq> CHR ''}'') cs))
      else findall_braces cs)"
  by pat_completeness auto
termination
proof (relation "measure length")
  fix c :: char and cs :: string
  have "length (tl (dropWhile (\<lambda>x. x \<noteq> CHR ''}'') cs)) \<le> length cs"
    using length_dropWhile_le [of "\<lambda>x. x \<noteq> CHR ''}''" cs] by simp
  then show "(tl (dropWhile (\<lambda>x. x \<noteq> CHR ''}'') cs), c # cs) \<in> measure length"
    by simp
qed auto

declare findall_braces.simps(2) [simp del]

section \<open>The JSON decoder\<close>

text \<open>
  \<^verbatim>\<open>json.loads\<close> in two passes: the text is cut into tokens, and the tokens are
  read by a pushdown automaton for the JSON grammar. White space (space, tab,
  line feed, carriage return) may stand between any two tokens and nowhere else.
  Every failure is a \<^verbatim>\<open>JSONDecodeError\<close>.
\<close>

datatype token = LBrace | RBrace | LBracket | RBracket | Colon | Comma | Str string | Scalar json

definition is_json_ws :: "char \<Rightarrow> bool" where
  "is_json_ws c = (c \<in> {CHR 0x20, CHR 0x09, CHR 0x0A, CHR 0x0D})"

definition hex_val :: "char \<Rightarrow> nat option" where
  "hex_val c =
     (let n = of_char c :: nat
      in if 48 \<le> n \<and> n \<le> 57 then Some (n - 48)
         else if 65 \<le> n \<and> n \<le> 70 then Some (n - 55)
         else if 97 \<le> n \<and> n \<le> 102 then Some (n - 87)
         else None)"

text \<open>
  The four hexadecimal digits of a \<^verbatim>\<open>\uXXXX\<close> escape. An escape above
  \<^verbatim>\<open>00ff\<close> names a character outside the modelled range of code points and
  is not accepted here.
\<close>

definition decode_hex4 :: "string \<Rightarrow> char option" where
  "decode_hex4 ds =
     (case map hex_val ds of
        [Some a, Some b, Some c, Some d] \<Rightarrow>
          if a = 0 \<and> b = 0 then Some (char_of (16 * c + d)) else None
      | _ \<Rightarrow> None)"

definition unescape :: "char \<Rightarrow> char option" where
  "unescape e =
     (if e = CHR 0x22 \<or> e = CHR 0x5C \<or> e = CHR ''/'' then Some e
      else if e = CHR ''b'' then Some (CHR 0x08)
      else if e = CHR ''f'' then Some (CHR 0x0C)
      else if e = CHR ''n'' then Some (CHR 0x0A)
      else if e = CHR ''r'' then Some (CHR 0x0D)
      else if e = CHR ''t'' then Some (CHR 0x09)
      else None)"

text \<open>
  The body of a string literal, after its opening quote: up to the closing
  quote, with backslash escapes decoded; a raw control character (below U+0020)
  is an error. Returns the string and the text after the closing quote.
\<close>

fun scanstring :: "string \<Rightarrow> string \<Rightarrow> (string \<times> string) option" where
  "scanstring acc [] = None"
| "scanstring acc (c # cs) =
     (if c = CHR 0x22 then Some (rev acc, cs)
      else if c = CHR 0x5C then
        (case cs of
           [] \<Rightarrow> None
         | e # cs' \<Rightarrow>
             if e = CHR ''u'' then
               (case decode_hex4 (take 4 cs') of
                  None \<Rightarrow> None
                | Some ch \<Rightarrow> scanstring (ch # acc) (drop 4 cs'))
             else
               (case unescape e of
                  None \<Rightarrow> None
                | Some ch \<Rightarrow> scanstring (ch # acc) cs'))
      else if (of_char c :: nat) < 32 then None
      else scanstring (c # acc) cs)"

text \<open>
  A number is the longest prefix of the form
  \<^verbatim>\<open>-?(0|[1-9][0-9]*)(\.[0-9]+)?([eE][-+]?[0-9]+)?\<close>: an \<^verbatim>\<open>int\<close> when it has
  neither fraction nor exponent, a \<^verbatim>\<open>float\<close> otherwise.
\<close>

definition scan_int_part :: "string \<Rightarrow> (string \<times> string) option" where
  "scan_int_part cs =
     (case cs of
        [] \<Rightarrow> None
      | c # cs' \<Rightarrow>
          if c = CHR ''0'' then Some ([c], cs')
          else if is_decimal c then Some (takeWhile is_decimal cs, dropWhile is_decimal cs)
          else None)"

definition scan_frac :: "string \<Rightarrow> string \<times> string" where
  "scan_frac cs =
     (case cs of
        c # cs' \<Rightarrow>
          if c = CHR ''.'' \<and> takeWhile is_decimal cs' \<noteq> []
          then (takeWhile is_decimal cs', dropWhile is_decimal cs')
          else ([], cs)
      | [] \<Rightarrow> ([], cs))"

definition scan_sign :: "string \<Rightarrow> bool \<times> string" where
  "scan_sign cs =
     (case cs of
        c # cs' \<Rightarrow> if c = CHR ''-'' then (True, cs') else if c = CHR ''+'' then (False, cs') else (False, cs)
      | [] \<Rightarrow> (False, cs))"

definition scan_exp :: "string \<Rightarrow> int option \<times> string" where
  "scan_exp cs =
     (case cs of
        c # cs' \<Rightarrow>
          if c = CHR ''e'' \<or> c = CHR ''E'' then
            (case scan_sign cs' of
               (neg, cs'') \<Rightarrow>
                 if takeWhile is_decimal cs'' = [] then (None, cs)
                 else (Some ((if neg then - 1 else 1) * int_of_digits (takeWhile is_decimal cs'')),
                       dropWhile is_decimal cs''))
          else (None, cs)
      | [] \<Rightarrow> (None, cs))"

definition scan_number :: "string \<Rightarrow> (json \<times> string) option" where
  "scan_number cs =
     (let neg = (cs \<noteq> [] \<and> hd cs = CHR ''-'')
      in case scan_int_part (if neg then tl cs else cs) of
           None \<Rightarrow> None
         | Some (ds, r1) \<Rightarrow>
             (case scan_frac r1 of
                (fs, r2) \<Rightarrow>
                  (case scan_exp r2 of
                     (ex, r3) \<Rightarrow>
                       if fs = [] \<and> ex = None
                       then Some (JInt ((if neg then - 1 else 1) * int_of_digits ds), r3)
                       else Some (JFloat (float_of_decimal neg (int_of_digits (ds @ fs))
                                            ((case ex of None \<Rightarrow> 0 | Some k \<Rightarrow> k) - int (length fs))),
                                  r3))))"

text \<open>The constants, as \<^verbatim>\<open>scan_once\<close> tries them.\<close>

definition literals :: "(string \<times> json) list" where
  "literals =
     [(''null'', JNull), (''true'', JBool True), (''false'', JBool False),
      (''NaN'', JFloat NaN_float), (''Infinity'', JFloat (Inf_float False)),
      (''-Infinity'', JFloat (Inf_float True))]"

definition scan_literal :: "string \<Rightarrow> (json \<times> string) option" where
  "scan_literal cs =
     (case filter (\<lambda>(w, v). take (length w) cs = w) literals of
        [] \<Rightarrow> None
      | (w, v) # _ \<Rightarrow> Some (v, drop (length w) cs))"

definition scan_scalar :: "string \<Rightarrow> (json \<times> string) option" where
  "scan_scalar cs =
     (case scan_number cs of
        Some r \<Rightarrow> Some r
      | None \<Rightarrow> scan_literal cs)"

lemma scanstring_shorter: "scanstring acc cs = Some (s, rest) \<Longrightarrow> length rest < length cs"
proof (induction acc cs rule: scanstring.induct)
  case (1 acc)
  then show ?case by simp
next
  case (2 acc c cs)
  show ?case
  proof (cases "c = CHR 0x22")
    case True
    with "2.prems" show ?thesis by simp
  next
    case nq: False
    show ?thesis
    proof (cases "c = CHR 0x5C")
      case bs: True
      show ?thesis
      proof (cases cs)
        case Nil
        with "2.prems" nq bs show ?thesis by simp
      next
        case (Cons e cs')
        show ?thesis
        proof (cases "e = CHR ''u''")
          case True
          with "2.prems" nq bs Cons obtain ch
            where d: "decode_hex4 (take 4 cs') = Some ch"
              and r: "scanstring (ch # acc) (drop 4 cs') = Some (s, rest)"
            by (auto split: option.splits)
          from "2.IH"(1) [OF nq bs Cons True d r] have "length rest < length (drop 4 cs')" .
          then show ?thesis using Cons by simp
        next
          case False
          with "2.prems" nq bs Cons obtain ch
            where d: "unescape e = Some ch"
              and r: "scanstring (ch # acc) cs' = Some (s, rest)"
            by (auto split: option.splits)
          from "2.IH"(2) [OF nq bs Cons False d r] have "length rest < length cs'" .
          then show ?thesis using Cons by simp
        qed
      qed
    next
      case nb: False
      show ?thesis
      proof (cases "(of_char c :: nat) < 32")
        case True
        with "2.prems" nq nb show ?thesis by simp
      next
        case False
        with "2.prems" nq nb have r: "scanstring (c # acc) cs = Some (s, rest)" by simp
        from "2.IH"(3) [OF nq nb False r] show ?thesis by simp
      qed
    qed
  qed
qed

lemma scan_int_part_shorter: "scan_int_part cs = Some (ds, rest) \<Longrightarrow> length rest < length cs"
proof (cases cs)
  case Nil
  assume "scan_int_part cs = Some (ds, rest)"
  with Nil show ?thesis by (simp add: scan_int_part_def)
next
  case (Cons c cs')
  assume h: "scan_int_part cs = Some (ds, rest)"
  have "length (dropWhile is_decimal cs') \<le> length cs'"
    by (rule length_dropWhile_le)
  with h Cons show ?thesis
    by (auto simp: scan_int_part_def split: if_splits)
qed

lemma scan_frac_shorter: "scan_frac cs = (fs, rest) \<Longrightarrow> length rest \<le> length cs"
proof (cases cs)
  case Nil
  assume "scan_frac cs = (fs, rest)"
  with Nil show ?thesis by (simp add: scan_frac_def)
next
  case (Cons c cs')
  assume h: "scan_frac cs = (fs, rest)"
  have "length (dropWhile is_decimal cs') \<le> length cs'"
    by (rule length_dropWhile_le)
  with h Cons show ?thesis
    by (auto simp: scan_frac_def split: if_splits)
qed

lemma scan_sign_shorter: "scan_sign cs = (neg, rest) \<Longrightarrow> length rest \<le> length cs"
  by (auto simp: scan_sign_def split: list.splits if_splits)

lemma scan_exp_shorter: "scan_exp cs = (ex, rest) \<Longrightarrow> length rest \<le> length cs"
proof (cases cs)
  case Nil
  assume "scan_exp cs = (ex, rest)"
  with Nil show ?thesis by (simp add: scan_exp_def)
next
  case (Cons c cs')
  assume h: "scan_exp cs = (ex, rest)"
  obtain neg cs'' where s: "scan_sign cs' = (neg, cs'')"
    by (cases "scan_sign cs'")
  have "length (dropWhile is_decimal cs'') \<le> length cs''"
    by (rule length_dropWhile_le)
  moreover have "length cs'' \<le> length cs'"
    using s by (rule scan_sign_shorter)
  ultimately show ?thesis
    using h Cons s by (auto simp: scan_exp_def split: if_splits)
qed

lemma scan_number_shorter: "scan_number cs = Some (v, rest) \<Longrightarrow> length rest < length cs"
proof -
  assume h: "scan_number cs = Some (v, rest)"
  define cs0 where "cs0 = (if cs \<noteq> [] \<and> hd cs = CHR ''-'' then tl cs else cs)"
  have c0: "length cs0 \<le> length cs"
    by (simp add: cs0_def)
  from h obtain ds r1 where i: "scan_int_part cs0 = Some (ds, r1)"
    by (auto simp: scan_number_def cs0_def Let_def split: option.splits)
  obtain fs r2 where f: "scan_frac r1 = (fs, r2)"
    by (cases "scan_frac r1")
  obtain ex r3 where e: "scan_exp r2 = (ex, r3)"
    by (cases "scan_exp r2")
  from h i f e have "rest = r3"
    by (auto simp: scan_number_def cs0_def Let_def split: if_splits)
  moreover have "length r1 < length cs0" "length r2 \<le> length r1" "length r3 \<le> length r2"
    using i f e by (auto dest: scan_int_part_shorter scan_frac_shorter scan_exp_shorter)
  ultimately show ?thesis
    using c0 by simp
qed

lemma scan_literal_shorter: "scan_literal cs = Some (v, rest) \<Longrightarrow> length rest < length cs"
proof -
  assume h: "scan_literal cs = Some (v, rest)"
  then obtain w ws where f: "filter (\<lambda>(w, v). take (length w) cs = w) literals = (w, v) # ws"
    and r: "rest = drop (length w) cs"
    by (auto simp: scan_literal_def split: list.splits)
  have "(w, v) \<in> set (filter (\<lambda>(w, v). take (length w) cs = w) literals)"
    unfolding f by simp
  then have m: "(w, v) \<in> set literals" and t: "take (length w) cs = w"
    by auto
  from m have "w \<noteq> []"
    by (auto simp: literals_def)
  with t have "cs \<noteq> []" "0 < length w"
    by auto
  with r show ?thesis
    by simp
qed

lemma scan_scalar_shorter: "scan_scalar cs = Some (v, rest) \<Longrightarrow> length rest < length cs"
  by (auto simp: scan_scalar_def split: option.splits
           dest: scan_number_shorter scan_literal_shorter)

text \<open>The tokens of a text, or \<open>None\<close> where no token starts.\<close>

function lex :: "string \<Rightarrow> token list option" where
  "lex [] = Some []"
| "lex (c # cs) =
     (if is_json_ws c then lex cs
      else if c = CHR ''{'' then map_option (Cons LBrace) (lex cs)
      else if c = CHR ''}'' then map_option (Cons RBrace) (lex cs)
      else if c = CHR ''['' then map_option (Cons LBracket) (lex cs)
      else if c = CHR '']'' then map_option (Cons RBracket) (lex cs)
      else if c = CHR '':'' then map_option (Cons Colon) (lex cs)
      else if c = CHR '','' then map_option (Cons Comma) (lex cs)
      else if c = CHR 0x22 then
        (case scanstring [] cs of
           None \<Rightarrow> None
         | Some (s, rest) \<Rightarrow> map_option (Cons (Str s)) (lex rest))
      else
        (case scan_scalar (c # cs) of
           None \<Rightarrow> None
         | Some (v, rest) \<Rightarrow> map_option (Cons (Scalar v)) (lex rest)))"
  by pat_completeness auto
termination
proof (relation "measure length")
  fix c :: char and cs s rest :: string and x :: "string \<times> string"
  assume "scanstring [] cs = Some x" and "(s, rest) = x"
  then have "length rest < length cs"
    using scanstring_shorter [of "[]" cs s rest] by simp
  then show "(rest, c # cs) \<in> measure length"
    by simp
next
  fix c :: char and cs rest :: string and v :: json and x :: "json \<times> string"
  assume "scan_scalar (c # cs) = Some x" and "(v, rest) = x"
  then have "length rest < length (c # cs)"
    using scan_scalar_shorter [of "c # cs" v rest] by simp
  then show "(rest, c # cs) \<in> measure length"
    by simp
qed auto

declare lex.simps(2) [simp del]

text \<open>
  The automaton keeps a stack of the arrays and objects that are open. Each
  frame records what has been read of its container and what may come next.
\<close>

datatype frame =
    ArrStart
  | ArrNext "json list"
  | ArrHave "json list"
  | ObjStart
  | ObjNext "(string \<times> json) list"
  | ObjKey "(string \<times> json) list" string
  | ObjColon "(string \<times> json) list" string
  | ObjHave "(string \<times> json) list"

datatype pstate = Expect "frame list" | Complete json

text \<open>A value has been read: it is the whole document, an array element or a member's value.\<close>

fun put :: "json \<Rightarrow> frame list \<Rightarrow> pstate option" where
  "put v [] = Some (Complete v)"
| "put v (ArrStart # fs) = Some (Expect (ArrHave [v] # fs))"
| "put v (ArrNext xs # fs) = Some (Expect (ArrHave (v # xs) # fs))"
| "put v (ObjColon ps k # fs) = Some (Expect (ObjHave ((k, v) # ps) # fs))"
| "put v (f # fs) = None"

fun wants_value :: "frame list \<Rightarrow> bool" where
  "wants_value [] = True"
| "wants_value (ArrStart # fs) = True"
| "wants_value (ArrNext xs # fs) = True"
| "wants_value (ObjColon ps k # fs) = True"
| "wants_value (f # fs) = False"

fun step :: "pstate \<Rightarrow> token \<Rightarrow> pstate option" where
  "step (Complete v) t = None"
| "step (Expect fs) (Scalar v) = put v fs"
| "step (Expect (ObjStart # fs)) (Str s) = Some (Expect (ObjKey [] s # fs))"
| "step (Expect (ObjNext ps # fs)) (Str s) = Some (Expect (ObjKey ps s # fs))"
| "step (Expect fs) (Str s) = put (JStr s) fs"
| "step (Expect fs) LBracket = (if wants_value fs then Some (Expect (ArrStart # fs)) else None)"
| "step (Expect fs) LBrace = (if wants_value fs then Some (Expect (ObjStart # fs)) else None)"
| "step (Expect (ArrStart # fs)) RBracket = put (JArr []) fs"
| "step (Expect (ArrHave xs # fs)) RBracket = put (JArr (rev xs)) fs"
| "step (Expect (ObjStart # fs)) RBrace = put (JObj []) fs"
| "step (Expect (ObjHave ps # fs)) RBrace = put (JObj (dict_of_pairs (rev ps))) fs"
| "step (Expect (ArrHave xs # fs)) Comma = Some (Expect (ArrNext xs # fs))"
| "step (Expect (ObjHave ps # fs)) Comma = Some (Expect (ObjNext ps # fs))"
| "step (Expect (ObjKey ps k # fs)) Colon = Some (Expect (ObjColon ps k # fs))"
| "step (Expect fs) t = None"

fun run :: "pstate \<Rightarrow> token list \<Rightarrow> pstate option" where
  "run st [] = Some st"
| "run st (t # ts) = (case step st t of None \<Rightarrow> None | Some st' \<Rightarrow> run st' ts)"

definition parse_tokens :: "token list \<Rightarrow> json option" where
  "parse_tokens ts = (case run (Expect []) ts of Some (Complete v) \<Rightarrow> Some v | _ \<Rightarrow> None)"

definition json_loads :: "string \<Rightarrow> pyerror + json" where
  "json_loads s =
     (case lex s of
        None \<Rightarrow> Inl JSONDecodeError
      | Some ts \<Rightarrow>
          (case parse_tokens ts of
             None \<Rightarrow> Inl JSONDecodeError
           | Some v \<Rightarrow> Inr v))"

section \<open>Operations on dynamically typed values\<close>

text \<open>Sequencing of statements that may raise: the first exception ends the block.\<close>

definition pybind :: "pyerror + 'a \<Rightarrow> ('a \<Rightarrow> pyerror + 'b) \<Rightarrow> pyerror + 'b" where
  "pybind m f = (case m of Inl e \<Rightarrow> Inl e | Inr x \<Rightarrow> f x)"

text \<open>\<^verbatim>\<open>x[0]\<close>\<close>

fun first_item :: "json \<Rightarrow> pyerror + json" where
  "first_item (JArr []) = Inl IndexError"
| "first_item (JArr (x # xs)) = Inr x"
| "first_item (JStr []) = Inl IndexError"
| "first_item (JStr (c # cs)) = Inr (JStr [c])"
| "first_item (JObj d) = Inl KeyError"
| "first_item v = Inl TypeError"

text \<open>\<^verbatim>\<open>x.get(k, default)\<close>\<close>

fun py_get :: "json \<Rightarrow> string \<Rightarrow> json \<Rightarrow> pyerror + json" where
  "py_get (JObj d) k dflt = Inr (case dict_get d k of None \<Rightarrow> dflt | Some v \<Rightarrow> v)"
| "py_get x k dflt = Inl AttributeError"

text \<open>\<^verbatim>\<open>x[k]\<close> for a string \<open>k\<close>\<close>

fun subscript :: "json \<Rightarrow> string \<Rightarrow> pyerror + json" where
  "subscript (JObj d) k = (case dict_get d k of None \<Rightarrow> Inl KeyError | Some v \<Rightarrow> Inr v)"
| "subscript x k = Inl TypeError"

text \<open>\<^verbatim>\<open>x[k] = v\<close> for a string \<open>k\<close>\<close>

fun set_item :: "json \<Rightarrow> string \<Rightarrow> json \<Rightarrow> pyerror + json" where
  "set_item (JObj d) k v = Inr (JObj (dict_set k v d))"
| "set_item x k v = Inl TypeError"

text \<open>\<^verbatim>\<open>k in x\<close> for a string \<open>k\<close>\<close>

fun py_in :: "string \<Rightarrow> json \<Rightarrow> pyerror + bool" where
  "py_in k (JObj d) = Inr (has_key d k)"
| "py_in k (JArr xs) = Inr (JStr k \<in> set xs)"
| "py_in k (JStr s) = Inr (contains s k)"
| "py_in k x = Inl TypeError"

text \<open>\<^verbatim>\<open>all(k in x for k in ks)\<close> stops at the first key that is missing.\<close>

fun all_in :: "string list \<Rightarrow> json \<Rightarrow> pyerror + bool" where
  "all_in [] x = Inr True"
| "all_in (k # ks) x = pybind (py_in k x) (\<lambda>b. if b then all_in ks x else Inr False)"

text \<open>\<^verbatim>\<open>x.strip()\<close> and \<^verbatim>\<open>x.lower()\<close> exist for strings only.\<close>

fun py_strip :: "json \<Rightarrow> pyerror + string" where
  "py_strip (JStr s) = Inr (strip s)"
| "py_strip x = Inl AttributeError"

fun py_lower :: "json \<Rightarrow> pyerror + string" where
  "py_lower (JStr s) = Inr (lower s)"
| "py_lower x = Inl AttributeError"

text \<open>
  \<^verbatim>\<open>x * y\<close> for a float \<open>y\<close>: an \<^verbatim>\<open>int\<close> (and a \<^verbatim>\<open>bool\<close>, which is an \<^verbatim>\<open>int\<close>)
  is converted to a float first; no other JSON value can be multiplied by a float.
\<close>

fun mul_float :: "json \<Rightarrow> pyfloat \<Rightarrow> pyerror + pyfloat" where
  "mul_float (JInt i) y = pybind (float_of_int i) (\<lambda>x. Inr (float_mul x y))"
| "mul_float (JBool b) y = pybind (float_of_int (if b then 1 else 0)) (\<lambda>x. Inr (float_mul x y))"
| "mul_float (JFloat x) y = Inr (float_mul x y)"
| "mul_float x y = Inl TypeError"

text \<open>Truth value of an object, as \<^verbatim>\<open>and\<close> and \<^verbatim>\<open>not\<close> test it.\<close>

fun truthy :: "json \<Rightarrow> bool" where
  "truthy JNull = False"
| "truthy (JBool b) = b"
| "truthy (JInt i) = (i \<noteq> 0)"
| "truthy (JFloat (Float s m e)) = (m \<noteq> 0)"
| "truthy (JFloat x) = True"
| "truthy (JStr s) = (s \<noteq> [])"
| "truthy (JArr xs) = (xs \<noteq> [])"
| "truthy (JObj d) = (d \<noteq> [])"

section \<open>llm\_utils.parse\_query\<close>

text \<open>
  The call to the inference endpoint is the one effect of \<^verbatim>\<open>parse_query\<close>; its
  outcome is an argument of the model. Either \<^verbatim>\<open>requests.post\<close> raises, or it
  returns a response with a status code and a body; \<open>payload\<close> is what
  \<^verbatim>\<open>response.json()\<close> returns, \<open>None\<close> when the body is not JSON.
  The prompt only reaches the endpoint, and the \<^verbatim>\<open>print\<close> calls only reach the log.
\<close>

datatype http_result = ConnectionFailed | HttpReply (status: nat) (payload: "json option")

definition raise_for_status :: "nat \<Rightarrow> pyerror + unit" where
  "raise_for_status st = (if 400 \<le> st \<and> st < 600 then Inl HTTPError else Inr ())"

definition response_json :: "json option \<Rightarrow> pyerror + json" where
  "response_json p = (case p of None \<Rightarrow> Inl JSONDecodeError | Some v \<Rightarrow> Inr v)"

definition feet_factor :: pyfloat where
  "feet_factor = float_of_decimal False 3048 (- 4)"

text \<open>Lines 80 and 81: the conversion from feet to meters.\<close>

definition convert_feet :: "json \<Rightarrow> json \<Rightarrow> pyerror + json" where
  "convert_feet query parsed_filter =
     pybind (py_lower query) (\<lambda>q.
       pybind (if contains q ''feet''
               then pybind (subscript parsed_filter ''attribute'') (\<lambda>a. Inr (a = JStr ''height''))
               else Inr False) (\<lambda>c.
         if c
         then pybind (subscript parsed_filter ''value'') (\<lambda>v.
                pybind (mul_float v feet_factor) (\<lambda>x.
                  set_item parsed_filter ''value'' (JFloat (py_round x 2))))
         else Inr parsed_filter))"

text \<open>Lines 84 and 85: a zoning value that is a string of digits becomes an \<^verbatim>\<open>int\<close>.\<close>

definition convert_zoning :: "json \<Rightarrow> pyerror + json" where
  "convert_zoning parsed_filter =
     pybind (py_get parsed_filter ''attribute'' JNull) (\<lambda>a.
       if a = JStr ''zoning''
       then pybind (subscript parsed_filter ''value'') (\<lambda>v.
              case v of
                JStr s \<Rightarrow>
                  if isdigit s
                  then pybind (py_int s) (\<lambda>i. set_item parsed_filter ''value'' (JInt i))
                  else Inr parsed_filter
              | _ \<Rightarrow> Inr parsed_filter)
       else Inr parsed_filter)"

definition required_keys :: "string list" where
  "required_keys = [''attribute'', ''operator'', ''value'']"

text \<open>
  The body of the inner \<^verbatim>\<open>try\<close> for one match: \<open>Inr (Some r)\<close> is
  \<^verbatim>\<open>return r\<close>, \<open>Inr None\<close> falls through to the next match.
\<close>

definition try_match :: "json \<Rightarrow> string \<Rightarrow> pyerror + json option" where
  "try_match query m =
     pybind (json_loads m) (\<lambda>parsed_filter.
       pybind (all_in required_keys parsed_filter) (\<lambda>ok.
         if ok
         then pybind (convert_feet query parsed_filter) (\<lambda>p1.
                pybind (convert_zoning p1) (\<lambda>p2. Inr (Some p2)))
         else Inr None))"

text \<open>
  The \<^verbatim>\<open>for\<close> loop: the inner handler catches \<^verbatim>\<open>JSONDecodeError\<close> and goes on
  with the next match; any other exception leaves the loop. After the last
  match the function returns \<^verbatim>\<open>{}\<close>.
\<close>

fun scan_matches :: "json \<Rightarrow> string list \<Rightarrow> pyerror + json" where
  "scan_matches query [] = Inr (JObj [])"
| "scan_matches query (m # ms) =
     (case try_match query m of
        Inl e \<Rightarrow> if e = JSONDecodeError then scan_matches query ms else Inl e
      | Inr None \<Rightarrow> scan_matches query ms
      | Inr (Some r) \<Rightarrow> Inr r)"

text \<open>\<^verbatim>\<open>full_json[0].get("generated_text", "").strip()\<close>\<close>

definition generated_text :: "json \<Rightarrow> pyerror + string" where
  "generated_text full_json =
     pybind (first_item full_json) (\<lambda>x.
       pybind (py_get x ''generated_text'' (JStr [])) py_strip)"

text \<open>Lines 63 to 70: the call, the status check, the decoded body and the generated text.\<close>

definition fetch_text :: "http_result \<Rightarrow> pyerror + string" where
  "fetch_text http =
     (case http of
        ConnectionFailed \<Rightarrow> Inl RequestException
      | HttpReply st p \<Rightarrow>
          pybind (raise_for_status st) (\<lambda>_.
            pybind (response_json p) generated_text))"

text \<open>The body of the outer \<^verbatim>\<open>try\<close>.\<close>

definition parse_query_try :: "http_result \<Rightarrow> json \<Rightarrow> pyerror + json" where
  "parse_query_try http query =
     pybind (fetch_text http) (\<lambda>text. scan_matches query (findall_braces text))"

text \<open>
  \<^verbatim>\<open>parse_query\<close>: the outer handler turns every exception into \<^verbatim>\<open>{}\<close>.
  \<open>Inl\<close> would be an exception that reaches the caller.
\<close>

definition parse_query :: "http_result \<Rightarrow> json \<Rightarrow> pyerror + json" where
  "parse_query http query =
     (case parse_query_try http query of
        Inl e \<Rightarrow> Inr (JObj [])
      | Inr r \<Rightarrow> Inr r)"

section \<open>The Flask application\<close>

text \<open>
  \<^verbatim>\<open>building_data\<close> is read once, when the module is loaded; opening a missing
  file, or reading one that is not JSON, raises, and the application does not start.
\<close>

record app =
  building_data :: json

definition load_app :: "string \<Rightarrow> pyerror + app" where
  "load_app file_text = pybind (json_loads file_text) (\<lambda>doc. Inr \<lparr>building_data = doc\<rparr>)"

text \<open>A view returns the JSON body of the response and its status code.\<close>

type_synonym http_response = "nat \<times> json"

definition get_buildings :: "app \<Rightarrow> pyerror + http_response" where
  "get_buildings a = Inr (200, building_data a)"

text \<open>
  \<^verbatim>\<open>query_buildings\<close>: \<open>request_json\<close> is the decoded body of the POST request,
  \<open>http\<close> the outcome of the call that \<^verbatim>\<open>parse_query\<close> makes.
\<close>

definition query_buildings :: "http_result \<Rightarrow> json \<Rightarrow> pyerror + http_response" where
  "query_buildings http request_json =
     pybind (py_get request_json ''query'' (JStr [])) (\<lambda>user_input.
       pybind (parse_query http user_input) (\<lambda>llm_response.
         pybind (py_get llm_response ''attribute'' JNull) (\<lambda>attribute.
           pybind (py_get llm_response ''operator'' JNull) (\<lambda>operator.
             pybind (py_get llm_response ''value'' JNull) (\<lambda>val.
               if \<not> (truthy attribute \<and> truthy operator \<and> val \<noteq> JNull)
               then Inr (400, JObj [(''error'', JStr ''Invalid LLM output'')])
               else Inr (200, llm_response))))))"

text \<open>The requests the application serves, and a run of the server over a list of them.\<close>

datatype request = GetBuildings | PostQuery json http_result

fun handle :: "app \<Rightarrow> request \<Rightarrow> app \<times> (pyerror + http_response)" where
  "handle a GetBuildings = (a, get_buildings a)"
| "handle a (PostQuery body http) = (a, query_buildings http body)"

fun serve :: "app \<Rightarrow> request list \<Rightarrow> (pyerror + http_response) list" where
  "serve a [] = []"
| "serve a (r # rs) = (case handle a r of (a', out) \<Rightarrow> out # serve a' rs)"

section \<open>Auxiliary notions\<close>

text \<open>
  A match qualifies when it decodes to an object that has the three keys
  \<^verbatim>\<open>attribute\<close>, \<^verbatim>\<open>operator\<close> and \<^verbatim>\<open>value\<close>: the test of line 78.
\<close>

definition qualifying :: "string \<Rightarrow> bool" where
  "qualifying m =
     (case json_loads m of
        Inr (JObj d) \<Rightarrow> list_all (has_key d) required_keys
      | _ \<Rightarrow> False)"


text \<open>
  The decoder's stack while it reads a text that starts with a brace: the
  outermost open container is an object.
\<close>

fun object_frame :: "frame \<Rightarrow> bool" where
  "object_frame ArrStart = False"
| "object_frame (ArrNext xs) = False"
| "object_frame (ArrHave xs) = False"
| "object_frame f = True"

fun object_state :: "pstate \<Rightarrow> bool" where
  "object_state (Expect fs) = (fs \<noteq> [] \<and> object_frame (last fs))"
| "object_state (Complete v) = (\<exists>d. v = JObj d)"

text \<open>
  The candidate blocks as the specification describes them: the substrings
  that start at a \<open>{\<close> and end at the next \<open>}\<close>, taken from left to right
  without overlap. \<open>has_block t\<close> says that some \<open>{\<close> of \<open>t\<close> has a \<open>}\<close> after it.
\<close>

definition has_block :: "string \<Rightarrow> bool" where
  "has_block t = (\<exists>pre body rest. t = pre @ CHR ''{'' # body @ CHR ''}'' # rest)"

inductive brace_blocks_spec :: "string \<Rightarrow> string list \<Rightarrow> bool" where
  no_block: "\<not> has_block t \<Longrightarrow> brace_blocks_spec t []"
| next_block:
    "CHR ''{'' \<notin> set pre \<Longrightarrow> CHR ''}'' \<notin> set body \<Longrightarrow> brace_blocks_spec rest ms \<Longrightarrow>
     brace_blocks_spec (pre @ CHR ''{'' # body @ CHR ''}'' # rest) ((CHR ''{'' # body @ [CHR ''}'']) # ms)"

section \<open>Basic facts\<close>

lemma pybind_Inl [simp]: "pybind (Inl e) f = Inl e"
  by (simp add: pybind_def)

lemma pybind_Inr [simp]: "pybind (Inr x) f = f x"
  by (simp add: pybind_def)

lemma pybind_eq_Inr: "pybind m f = Inr y \<longleftrightarrow> (\<exists>x. m = Inr x \<and> f x = Inr y)"
  by (cases m) simp_all

lemma put_object:
  "fs \<noteq> [] \<Longrightarrow> object_frame (last fs) \<Longrightarrow> put v fs = Some st \<Longrightarrow> object_state st"
  by (cases "(v, fs)" rule: put.cases) (auto split: if_splits)

lemma step_object: "object_state st \<Longrightarrow> step st t = Some st' \<Longrightarrow> object_state st'"
  by (cases "(st, t)" rule: step.cases) (auto split: if_splits dest: put_object)

lemma run_object: "object_state st \<Longrightarrow> run st ts = Some st' \<Longrightarrow> object_state st'"
  by (induction ts arbitrary: st) (auto split: option.splits dest: step_object)

lemma json_loads_brace:
  assumes "json_loads (CHR ''{'' # cs) = Inr v"
  shows "\<exists>d. v = JObj d"
proof -
  from assms obtain ts where l: "lex (CHR ''{'' # cs) = Some ts" and p: "parse_tokens ts = Some v"
    by (auto simp: json_loads_def split: option.splits)
  from l obtain ts' where ts: "ts = LBrace # ts'"
    by (auto simp: lex.simps(2) is_json_ws_def)
  from p ts have "run (Expect [ObjStart]) ts' = Some (Complete v)"
    by (auto simp: parse_tokens_def split: option.splits pstate.splits)
  then have "object_state (Complete v)"
    by (rule run_object [rotated]) simp
  then show ?thesis by simp
qed

lemma json_loads_error: "json_loads s = Inl e \<Longrightarrow> e = JSONDecodeError"
  by (auto simp: json_loads_def split: option.splits)

lemma all_in_dict: "all_in ks (JObj d) = Inr (list_all (has_key d) ks)"
  by (induction ks) auto

lemma findall_braces_start: "m \<in> set (findall_braces t) \<Longrightarrow> \<exists>cs. m = CHR ''{'' # cs"
proof (induction t rule: findall_braces.induct)
  case 1
  then show ?case by simp
next
  case (2 c cs)
  then show ?case
    by (auto simp: findall_braces.simps(2) split: if_splits)
qed

lemma try_match_skip:
  assumes "m = CHR ''{'' # cs" and "\<not> qualifying m"
  shows "try_match query m = Inl JSONDecodeError \<or> try_match query m = Inr None"
proof (cases "json_loads m")
  case (Inl e)
  then have "e = JSONDecodeError" by (rule json_loads_error)
  with Inl show ?thesis by (simp add: try_match_def)
next
  case (Inr v)
  with assms(1) obtain d where v: "v = JObj d"
    using json_loads_brace by blast
  with Inr assms(2) have "\<not> list_all (has_key d) required_keys"
    by (simp add: qualifying_def)
  with Inr v show ?thesis
    by (simp add: try_match_def all_in_dict)
qed

lemma scan_matches_skip:
  "\<forall>p \<in> set pre. try_match query p = Inl JSONDecodeError \<or> try_match query p = Inr None
   \<Longrightarrow> scan_matches query (pre @ ms) = scan_matches query ms"
  by (induction pre) auto




section \<open>Failure is always the empty dict\<close>




section \<open>Candidate extraction\<close>

lemma has_block_iff: "has_block t \<longleftrightarrow> (\<exists>pre cs. t = pre @ CHR ''{'' # cs \<and> CHR ''}'' \<in> set cs)"
proof
  assume "has_block t"
  then obtain pre body rest where "t = pre @ CHR ''{'' # body @ CHR ''}'' # rest"
    by (auto simp: has_block_def)
  then have "t = pre @ CHR ''{'' # (body @ CHR ''}'' # rest) \<and> CHR ''}'' \<in> set (body @ CHR ''}'' # rest)"
    by simp
  then show "\<exists>pre cs. t = pre @ CHR ''{'' # cs \<and> CHR ''}'' \<in> set cs"
    by blast
next
  assume "\<exists>pre cs. t = pre @ CHR ''{'' # cs \<and> CHR ''}'' \<in> set cs"
  then obtain pre cs where t: "t = pre @ CHR ''{'' # cs" and "CHR ''}'' \<in> set cs"
    by blast
  then obtain body rest where "cs = body @ CHR ''}'' # rest"
    by (auto simp: in_set_conv_decomp)
  with t show "has_block t"
    by (auto simp: has_block_def)
qed

lemma has_block_Cons:
  "has_block (c # cs) \<longleftrightarrow> (c = CHR ''{'' \<and> CHR ''}'' \<in> set cs) \<or> has_block cs"
proof -
  have "(\<exists>pre ds. c # cs = pre @ CHR ''{'' # ds \<and> CHR ''}'' \<in> set ds)
        \<longleftrightarrow> (c = CHR ''{'' \<and> CHR ''}'' \<in> set cs) \<or> (\<exists>pre ds. cs = pre @ CHR ''{'' # ds \<and> CHR ''}'' \<in> set ds)"
    (is "?l \<longleftrightarrow> ?r")
  proof
    assume ?l
    then obtain pre ds where e: "c # cs = pre @ CHR ''{'' # ds" and m: "CHR ''}'' \<in> set ds"
      by blast
    show ?r
    proof (cases pre)
      case Nil
      with e m show ?thesis by simp
    next
      case (Cons p pre')
      with e have "cs = pre' @ CHR ''{'' # ds" by simp
      with m show ?thesis by blast
    qed
  next
    assume ?r
    then show ?l
    proof
      assume "c = CHR ''{'' \<and> CHR ''}'' \<in> set cs"
      then have "c # cs = [] @ CHR ''{'' # cs \<and> CHR ''}'' \<in> set cs" by simp
      then show ?l by blast
    next
      assume "\<exists>pre ds. cs = pre @ CHR ''{'' # ds \<and> CHR ''}'' \<in> set ds"
      then obtain pre ds where "cs = pre @ CHR ''{'' # ds" and m: "CHR ''}'' \<in> set ds"
        by blast
      then have "c # cs = (c # pre) @ CHR ''{'' # ds" by simp
      with m show ?l by blast
    qed
  qed
  then show ?thesis
    by (simp add: has_block_iff)
qed

lemma findall_braces_no_block: "\<not> has_block t \<Longrightarrow> findall_braces t = []"
proof (induction t rule: findall_braces.induct)
  case 1
  then show ?case by simp
next
  case (2 c cs)
  from "2.prems" have n: "\<not> (c = CHR ''{'' \<and> CHR ''}'' \<in> set cs)" and h: "\<not> has_block cs"
    by (simp_all add: has_block_Cons)
  from "2.IH"(2) [OF n h] n show ?case
    by (simp add: findall_braces.simps(2))
qed

lemma findall_braces_first:
  assumes "CHR ''}'' \<notin> set body"
  shows "findall_braces (CHR ''{'' # body @ CHR ''}'' # rest)
         = (CHR ''{'' # body @ [CHR ''}'']) # findall_braces rest"
proof -
  have t: "takeWhile (\<lambda>x. x \<noteq> CHR ''}'') (body @ CHR ''}'' # rest) = body"
    using assms by (subst takeWhile_append2) auto
  have d: "dropWhile (\<lambda>x. x \<noteq> CHR ''}'') (body @ CHR ''}'' # rest) = CHR ''}'' # rest"
    using assms by (subst dropWhile_append2) auto
  show ?thesis
    by (simp add: findall_braces.simps(2) t d)
qed

lemma findall_braces_skip:
  "CHR ''{'' \<notin> set pre \<Longrightarrow> findall_braces (pre @ t) = findall_braces t"
  by (induction pre) (auto simp: findall_braces.simps(2))

lemma brace_blocks_spec_unique: "brace_blocks_spec t ms \<Longrightarrow> ms = findall_braces t"
proof (induction rule: brace_blocks_spec.induct)
  case (no_block t)
  then show ?case by (simp add: findall_braces_no_block)
next
  case (next_block pre body rest ms)
  then show ?case
    by (simp add: findall_braces_skip findall_braces_first)
qed

lemma brace_blocks_spec_Cons:
  assumes "brace_blocks_spec cs ms" and "\<not> (c = CHR ''{'' \<and> CHR ''}'' \<in> set cs)"
  shows "brace_blocks_spec (c # cs) ms"
  using assms
proof (cases rule: brace_blocks_spec.cases)
  case no_block
  with assms(2) have "\<not> has_block (c # cs)"
    by (simp add: has_block_Cons)
  with no_block show ?thesis
    by (simp add: brace_blocks_spec.no_block)
next
  case (next_block pre body rest ms')
  with assms(2) have "c \<noteq> CHR ''{''" by auto
  with next_block have "CHR ''{'' \<notin> set (c # pre)" by simp
  from brace_blocks_spec.next_block [OF this next_block(4) next_block(5)] next_block(1,2)
  show ?thesis by simp
qed

lemma brace_blocks_spec_findall: "brace_blocks_spec t (findall_braces t)"
proof (induction t rule: findall_braces.induct)
  case 1
  have "\<not> has_block []" by (simp add: has_block_def)
  then show ?case by (simp add: brace_blocks_spec.no_block)
next
  case (2 c cs)
  show ?case
  proof (cases "c = CHR ''{'' \<and> CHR ''}'' \<in> set cs")
    case True
    let ?body = "takeWhile (\<lambda>x. x \<noteq> CHR ''}'') cs"
    let ?rest = "tl (dropWhile (\<lambda>x. x \<noteq> CHR ''}'') cs)"
    from True have "dropWhile (\<lambda>x. x \<noteq> CHR ''}'') cs \<noteq> []"
      by (auto simp: dropWhile_eq_Nil_conv)
    then have "dropWhile (\<lambda>x. x \<noteq> CHR ''}'') cs = CHR ''}'' # ?rest"
      using hd_dropWhile [of "\<lambda>x. x \<noteq> CHR ''}''" cs]
      by (cases "dropWhile (\<lambda>x. x \<noteq> CHR ''}'') cs") auto
    then have cs: "cs = ?body @ CHR ''}'' # ?rest"
      using takeWhile_dropWhile_id [of "\<lambda>x. x \<noteq> CHR ''}''" cs] by simp
    have nb: "CHR ''}'' \<notin> set ?body"
      by (auto dest: set_takeWhileD)
    from "2.IH"(1) [OF True] have "brace_blocks_spec ?rest (findall_braces ?rest)" .
    from brace_blocks_spec.next_block [of "[]", OF _ nb this]
    have "brace_blocks_spec (CHR ''{'' # ?body @ CHR ''}'' # ?rest)
            ((CHR ''{'' # ?body @ [CHR ''}'']) # findall_braces ?rest)"
      by simp
    with cs True show ?thesis
      by (simp add: findall_braces.simps(2))
  next
    case False
    from "2.IH"(2) [OF False] have "brace_blocks_spec cs (findall_braces cs)" .
    then have "brace_blocks_spec (c # cs) (findall_braces cs)"
      using False by (rule brace_blocks_spec_Cons)
    moreover from False have "findall_braces (c # cs) = findall_braces cs"
      by (auto simp: findall_braces.simps(2))
    ultimately show ?thesis
      by simp
  qed
qed

text \<open>
  Claim C6. The candidate-extraction step yields exactly the blocks of the
  specification: each starts at a \<open>{\<close> and ends at the next \<open>}\<close>, they do not
  overlap, and they come in the order of the text. A nested object is cut at
  its first inner \<open>}\<close>, and a block may span a line break.
\<close>

theorem findall_braces_spec:
  \<open>(brace_blocks_spec t ms \<longleftrightarrow> ms = findall_braces t)
   \<and> findall_braces ''{"a": {"b": 1}}'' = [''{"a": {"b": 1}'']
   \<and> findall_braces ''x {"a":\<newline> 1} y'' = [''{"a":\<newline> 1}'']\<close>
proof (intro conjI)
  show "brace_blocks_spec t ms \<longleftrightarrow> ms = findall_braces t"
    using brace_blocks_spec_unique brace_blocks_spec_findall by blast
  show \<open>findall_braces ''{"a": {"b": 1}}'' = [''{"a": {"b": 1}'']\<close>
    by code_simp
  show \<open>findall_braces ''x {"a":\<newline> 1} y'' = [''{"a":\<newline> 1}'']\<close>
    by code_simp
qed


theorem findall_braces_spec_witness:
  \<open>brace_blocks_spec ''a{b{c}d}e{f}g{'' [''{b{c}'', ''{f}'']\<close>
proof -
  have "findall_braces ''a{b{c}d}e{f}g{'' = [''{b{c}'', ''{f}'']"
    by code_simp
  then show ?thesis
    using findall_braces_spec [of "''a{b{c}d}e{f}g{''" "[''{b{c}'', ''{f}'']"] by simp
qed

section \<open>The first qualifying block\<close>

lemma keys_Nil [simp]: "keys [] = {}"
  by (simp add: keys_def)

lemma keys_Cons [simp]: "keys ((k, v) # d) = insert k (keys d)"
  by (simp add: keys_def)

lemma keys_dict_set: "keys (dict_set k v d) = insert k (keys d)"
  by (induction d) (auto split: if_splits)

lemma dict_get_keys: "dict_get d k = Some v \<Longrightarrow> k \<in> keys d"
  by (induction d) (auto simp: dict_get_def split: if_splits)

lemma has_key_keys: "has_key d k \<longleftrightarrow> k \<in> keys d"
  by (induction d) (auto simp: has_key_def)

lemma subscript_Inr: "subscript p k = Inr v \<longleftrightarrow> (\<exists>d. p = JObj d \<and> dict_get d k = Some v)"
  by (cases p) (auto split: option.splits)
lemma dict_get_dict_set: "dict_get (dict_set k v d) k' = (if k' = k then Some v else dict_get d k')"
  by (induction d) (auto simp: dict_get_def)

lemma float_of_int_error: "float_of_int i = Inl e \<Longrightarrow> e = OverflowError"
  by (auto simp: float_of_int_def split: pyfloat.splits)

lemma mul_float_error: "mul_float v y = Inl e \<Longrightarrow> e = OverflowError \<or> e = TypeError"
  by (cases v) (auto simp: pybind_def split: sum.splits dest: float_of_int_error)


lemma subscript_error: "subscript p k = Inl e \<Longrightarrow> e = KeyError \<or> e = TypeError"
  by (cases p) (auto split: option.splits)

lemma set_item_Inr: "set_item p k v = Inr r \<longleftrightarrow> (\<exists>d. p = JObj d \<and> r = JObj (dict_set k v d))"
  by (cases p) auto

lemma py_get_Inr: "py_get p k dflt = Inr v \<longleftrightarrow> (\<exists>d. p = JObj d \<and> v = (case dict_get d k of None \<Rightarrow> dflt | Some w \<Rightarrow> w))"
  by (cases p) auto

lemma py_lower_Inr: "py_lower query = Inr q \<longleftrightarrow> (\<exists>s. query = JStr s \<and> q = lower s)"
  by (cases query) auto

lemma convert_feet_dict:
  "convert_feet (JStr q) (JObj d) =
     (if contains (lower q) ''feet'' \<and> dict_get d ''attribute'' = Some (JStr ''height'')
      then pybind (subscript (JObj d) ''value'') (\<lambda>v.
             pybind (mul_float v feet_factor) (\<lambda>x.
               Inr (JObj (dict_set ''value'' (JFloat (py_round x 2)) d))))
      else if contains (lower q) ''feet'' \<and> dict_get d ''attribute'' = None then Inl KeyError
      else Inr (JObj d))"
  by (auto simp: convert_feet_def split: option.splits)

lemma convert_feet_keys:
  assumes "convert_feet query p = Inr (JObj d')"
  shows "\<exists>d. p = JObj d \<and> keys d' = keys d"
proof -
  from assms obtain q where q: "query = JStr q"
    by (cases query) (auto simp: convert_feet_def)
  show ?thesis
  proof (cases "p = JObj d'")
    case True
    then show ?thesis by simp
  next
    case False
    with assms q obtain v x where v: "subscript p ''value'' = Inr v"
      and r: "set_item p ''value'' (JFloat (py_round x 2)) = Inr (JObj d')"
      by (auto simp: convert_feet_def pybind_eq_Inr split: if_splits)
    from r obtain d where d: "p = JObj d" and d': "d' = dict_set ''value'' (JFloat (py_round x 2)) d"
      by (auto simp: set_item_Inr)
    from v d have "''value'' \<in> keys d"
      by (auto split: option.splits dest: dict_get_keys)
    with d d' show ?thesis
      by (auto simp: keys_dict_set)
  qed
qed

lemma convert_zoning_keys:
  assumes "convert_zoning p = Inr r"
  shows "\<exists>d d'. p = JObj d \<and> r = JObj d' \<and> keys d' = keys d"
proof -
  from assms obtain d where d: "p = JObj d"
    by (cases p) (auto simp: convert_zoning_def)
  show ?thesis
  proof (cases "r = p")
    case True
    with d show ?thesis by simp
  next
    case False
    with assms d obtain v i where v: "dict_get d ''value'' = Some v"
      and r: "r = JObj (dict_set ''value'' (JInt i) d)"
      by (auto simp: convert_zoning_def pybind_eq_Inr split: if_splits option.splits json.splits)
    from v have "''value'' \<in> keys d"
      by (rule dict_get_keys)
    with d r show ?thesis
      by (auto simp: keys_dict_set)
  qed
qed

lemma convert_feet_error: "convert_feet query p = Inl e \<Longrightarrow> e \<noteq> JSONDecodeError"
  by (cases query; cases p)
     (auto simp: convert_feet_def pybind_def split: if_splits sum.splits option.splits
           dest: mul_float_error)

lemma py_int_error: "py_int s = Inl e \<Longrightarrow> e = ValueError"
  by (auto simp: py_int_def split: if_splits)

lemma convert_zoning_error: "convert_zoning p = Inl e \<Longrightarrow> e \<noteq> JSONDecodeError"
  by (cases p)
     (auto simp: convert_zoning_def pybind_def split: if_splits sum.splits option.splits json.splits
           dest: py_int_error)

lemma try_match_qualifying:
  assumes "json_loads m = Inr (JObj d)" and "list_all (has_key d) required_keys"
  shows "try_match query m =
           pybind (convert_feet query (JObj d)) (\<lambda>p1. pybind (convert_zoning p1) (\<lambda>p2. Inr (Some p2)))"
  using assms by (simp add: try_match_def all_in_dict)

lemma try_match_Some:
  assumes "try_match query m = Inr (Some r)"
  shows "\<exists>d0 d. json_loads m = Inr (JObj d0) \<and> list_all (has_key d0) required_keys
                \<and> r = JObj d \<and> keys d = keys d0"
proof -
  from assms obtain v p1 where l: "json_loads m = Inr v"
    and a: "all_in required_keys v = Inr True"
    and f: "convert_feet query v = Inr p1"
    and z: "convert_zoning p1 = Inr r"
    by (auto simp: try_match_def pybind_eq_Inr split: if_splits)
  from z obtain d1 d where p1: "p1 = JObj d1" and r: "r = JObj d" and k1: "keys d = keys d1"
    using convert_zoning_keys by blast
  from f p1 obtain d0 where v: "v = JObj d0" and k0: "keys d1 = keys d0"
    using convert_feet_keys by blast
  from a v have "list_all (has_key d0) required_keys"
    by (simp add: all_in_dict)
  with l v r k1 k0 show ?thesis
    by simp
qed


lemma normalise_error:
  "pybind (convert_feet query p) (\<lambda>p1. pybind (convert_zoning p1) (\<lambda>p2. Inr (Some p2))) = Inl e
   \<Longrightarrow> e \<noteq> JSONDecodeError"
  by (auto simp: pybind_def split: sum.splits dest: convert_feet_error convert_zoning_error)

lemma scan_matches_first:
  assumes "\<forall>p \<in> set pre. (\<exists>cs. p = CHR ''{'' # cs) \<and> \<not> qualifying p"
    and "json_loads m = Inr (JObj d)" and "list_all (has_key d) required_keys"
  shows "scan_matches query (pre @ m # post) = pybind (convert_feet query (JObj d)) convert_zoning"
proof -
  have "\<forall>p \<in> set pre. try_match query p = Inl JSONDecodeError \<or> try_match query p = Inr None"
    using assms(1) try_match_skip by blast
  then have s: "scan_matches query (pre @ m # post) = scan_matches query (m # post)"
    by (rule scan_matches_skip)
  have t: "try_match query m =
             pybind (convert_feet query (JObj d)) (\<lambda>p1. pybind (convert_zoning p1) (\<lambda>p2. Inr (Some p2)))"
    using assms(2,3) by (rule try_match_qualifying)
  show ?thesis
  proof (cases "try_match query m")
    case (Inl e)
    with t have "e \<noteq> JSONDecodeError"
      using normalise_error by metis
    moreover from Inl t have "pybind (convert_feet query (JObj d)) convert_zoning = Inl e"
      by (auto simp: pybind_def split: sum.splits)
    ultimately show ?thesis
      using s Inl by simp
  next
    case (Inr r)
    with t obtain p2 where "r = Some p2" and "pybind (convert_feet query (JObj d)) convert_zoning = Inr p2"
      by (auto simp: pybind_def split: sum.splits)
    with s Inr show ?thesis
      by simp
  qed
qed

lemma parse_query_text:
  "fetch_text http = Inr t \<Longrightarrow>
   parse_query http query =
     Inr (case scan_matches query (findall_braces t) of Inl e \<Rightarrow> JObj [] | Inr r \<Rightarrow> r)"
  by (simp add: parse_query_def parse_query_try_def split: sum.splits)

lemma parse_query_first:
  assumes "fetch_text http = Inr t" and "findall_braces t = pre @ m # post"
    and "\<forall>p \<in> set pre. \<not> qualifying p"
    and "json_loads m = Inr (JObj d)" and "list_all (has_key d) required_keys"
  shows "parse_query http query =
           Inr (case pybind (convert_feet query (JObj d)) convert_zoning of
                  Inl e \<Rightarrow> JObj []
                | Inr r \<Rightarrow> r)"
proof -
  have "\<forall>p \<in> set pre. (\<exists>cs. p = CHR ''{'' # cs) \<and> \<not> qualifying p"
  proof
    fix p assume p: "p \<in> set pre"
    with assms(2) have "p \<in> set (findall_braces t)" by simp
    then have "\<exists>cs. p = CHR ''{'' # cs" by (rule findall_braces_start)
    with p assms(3) show "(\<exists>cs. p = CHR ''{'' # cs) \<and> \<not> qualifying p" by simp
  qed
  then have "scan_matches query (pre @ m # post) = pybind (convert_feet query (JObj d)) convert_zoning"
    using assms(4,5) by (rule scan_matches_first)
  with assms(1,2) show ?thesis
    by (simp add: parse_query_text)
qed

lemma scan_matches_result:
  assumes "scan_matches query ms = Inr r"
  shows "r = JObj [] \<or> (\<exists>m \<in> set ms. try_match query m = Inr (Some r))"
  using assms
proof (induction ms)
  case Nil
  then show ?case by simp
next
  case (Cons m ms)
  then show ?case
    by (cases "try_match query m") (auto split: if_splits option.splits)
qed


end
